theory Spec2Isabelle
  imports Complex_Main "HOL-Library.Sublist"
begin

section \<open>Python strings\<close>

text \<open>
  A Python \<open>str\<close> is modelled by its UTF-8 byte sequence, a \<^typ>\<open>string\<close>.  Every
  delimiter that \<open>main.py\<close> looks for (the literal text of \<open>CHAT_LINE_RE\<close>, the apostrophe,
  the newline, the three template tokens, the three platform prefixes, the characters of
  \<open>strip(" '\"")\<close>) is ASCII, and an ASCII byte never occurs inside the encoding of another
  code point, so searching, splitting and replacing on the bytes gives the encoding of what
  Python computes on the code points.  Only \<open>str.strip()\<close> without argument looks at
  characters beyond ASCII; \<open>py_strip\<close> below knows their encodings.
\<close>

abbreviation (input) apos :: char where
  "apos \<equiv> CHR 0x27"

abbreviation (input) newline :: char where
  "newline \<equiv> CHR 0x0A"

definition startswith :: "string \<Rightarrow> string \<Rightarrow> bool" where
  \<comment> \<open>\<open>s.startswith(pre)\<close>\<close>
  "startswith s pre = prefix pre s"

function py_replace :: "string \<Rightarrow> string \<Rightarrow> string \<Rightarrow> string" where
  \<comment> \<open>\<open>s.replace(old, new)\<close>: the occurrences of \<open>old\<close> are found from left to right,
      each search resuming behind the previous occurrence; the text put in is not searched.
      With an empty \<open>old\<close> Python puts \<open>new\<close> before every character and at the end.\<close>
  "py_replace [] old new = (if old = [] then new else [])"
| "py_replace (c # cs) old new =
     (if old = [] then new @ c # py_replace cs old new
      else if prefix old (c # cs) then new @ py_replace (drop (length old) (c # cs)) old new
      else c # py_replace cs old new)"
  by pat_completeness auto
termination
  by (relation "measure (\<lambda>(s, old, new). length s)") auto

definition strip_chars :: "string \<Rightarrow> char set \<Rightarrow> string" where
  \<comment> \<open>\<open>s.strip(chars)\<close> for a set of ASCII characters\<close>
  "strip_chars s chars =
     rev (dropWhile (\<lambda>c. c \<in> chars) (rev (dropWhile (\<lambda>c. c \<in> chars) s)))"

definition whitespace :: "string list" where
  \<comment> \<open>the code points for which \<open>str.isspace()\<close> holds, each as its UTF-8 encoding:
      U+0009..U+000D, U+001C..U+001F, U+0020, U+0085, U+00A0, U+1680, U+2000..U+200A,
      U+2028, U+2029, U+202F, U+205F, U+3000\<close>
  "whitespace =
     [[CHR 0x09], [CHR 0x0A], [CHR 0x0B], [CHR 0x0C], [CHR 0x0D],
      [CHR 0x1C], [CHR 0x1D], [CHR 0x1E], [CHR 0x1F], [CHR 0x20],
      [CHR 0xC2, CHR 0x85], [CHR 0xC2, CHR 0xA0], [CHR 0xE1, CHR 0x9A, CHR 0x80],
      [CHR 0xE2, CHR 0x80, CHR 0x80], [CHR 0xE2, CHR 0x80, CHR 0x81],
      [CHR 0xE2, CHR 0x80, CHR 0x82], [CHR 0xE2, CHR 0x80, CHR 0x83],
      [CHR 0xE2, CHR 0x80, CHR 0x84], [CHR 0xE2, CHR 0x80, CHR 0x85],
      [CHR 0xE2, CHR 0x80, CHR 0x86], [CHR 0xE2, CHR 0x80, CHR 0x87],
      [CHR 0xE2, CHR 0x80, CHR 0x88], [CHR 0xE2, CHR 0x80, CHR 0x89],
      [CHR 0xE2, CHR 0x80, CHR 0x8A], [CHR 0xE2, CHR 0x80, CHR 0xA8],
      [CHR 0xE2, CHR 0x80, CHR 0xA9], [CHR 0xE2, CHR 0x80, CHR 0xAF],
      [CHR 0xE2, CHR 0x81, CHR 0x9F], [CHR 0xE3, CHR 0x80, CHR 0x80]]"

fun lstrip_fuel :: "nat \<Rightarrow> string list \<Rightarrow> string \<Rightarrow> string" where
  \<comment> \<open>drops leading members of \<open>ws\<close>; every round removes at least one byte, so
      \<open>length s\<close> rounds are enough\<close>
  "lstrip_fuel 0 ws s = s"
| "lstrip_fuel (Suc n) ws s =
     (case find (\<lambda>w. w \<noteq> [] \<and> prefix w s) ws of
        None \<Rightarrow> s
      | Some w \<Rightarrow> lstrip_fuel n ws (drop (length w) s))"

definition py_lstrip :: "string \<Rightarrow> string" where
  "py_lstrip s = lstrip_fuel (length s) whitespace s"

definition py_rstrip :: "string \<Rightarrow> string" where
  "py_rstrip s = rev (lstrip_fuel (length s) (map rev whitespace) (rev s))"

definition py_strip :: "string \<Rightarrow> string" where
  \<comment> \<open>\<open>s.strip()\<close>\<close>
  "py_strip s = py_rstrip (py_lstrip s)"

function digits :: "nat \<Rightarrow> string" where
  "digits n =
     (if n < 10 then [''0123456789'' ! n] else digits (n div 10) @ [''0123456789'' ! (n mod 10)])"
  by pat_completeness auto
termination
  by (relation "measure id") auto

declare digits.simps [simp del]

definition str_int :: "int \<Rightarrow> string" where
  \<comment> \<open>\<open>str(i)\<close> of an \<open>int\<close>, as an f-string formats it\<close>
  "str_int i = (if i < 0 then CHR ''-'' # digits (nat (- i)) else digits (nat i))"

section \<open>The regular expression \<open>CHAT_LINE_RE\<close>\<close>

text \<open>
  The constructs of \<open>re\<close> that the pattern uses: literal text, the classes \<open>[^c]\<close> and
  \<open>.\<close> (any character but a newline), a greedy \<open>+\<close> and a lazy \<open>*?\<close> over a class,
  capturing and non-capturing groups, concatenation and \<open>$\<close>.  \<open>matches r (g, s)\<close> lists,
  in the order in which the backtracking matcher of \<open>re\<close> tries them, all ways to match
  \<open>r\<close> at the front of \<open>s\<close>: each is the group table and the input left over.  The
  matcher returns the first.
\<close>

datatype cclass = NotChr char | AnyButNL

fun cmatch :: "cclass \<Rightarrow> char \<Rightarrow> bool" where
  "cmatch (NotChr a) c = (c \<noteq> a)"
| "cmatch AnyButNL c = (c \<noteq> newline)"

datatype regex =
    Lit string
  | Cat regex regex
  | NGroup regex
  | Group nat regex
  | PlusGreedy cclass
  | StarLazy cclass
  | EndAnchor

type_synonym groups = "nat \<Rightarrow> string option"

fun spans :: "cclass \<Rightarrow> string \<Rightarrow> string list" where
  \<comment> \<open>what is left of the input after 0, 1, 2, ... characters of the class\<close>
  "spans a [] = [[]]"
| "spans a (c # cs) = (c # cs) # (if cmatch a c then spans a cs else [])"

fun matches :: "regex \<Rightarrow> groups \<times> string \<Rightarrow> (groups \<times> string) list" where
  "matches (Lit l) (g, s) = (if prefix l s then [(g, drop (length l) s)] else [])"
| "matches (Cat r1 r2) st = concat (map (\<lambda>st'. matches r2 st') (matches r1 st))"
| "matches (NGroup r) st = matches r st"
| "matches (Group n r) (g, s) =
     map (\<lambda>(g', s'). (g'(n \<mapsto> take (length s - length s') s), s')) (matches r (g, s))"
| "matches (PlusGreedy a) (g, s) = map (Pair g) (rev (tl (spans a s)))"
| "matches (StarLazy a) (g, s) = map (Pair g) (spans a s)"
| "matches EndAnchor (g, s) = (if s = [] \<or> s = [newline] then [(g, s)] else [])"

definition first_match :: "regex \<Rightarrow> groups \<times> string \<Rightarrow> (groups \<times> string) option" where
  "first_match r st = (case matches r st of [] \<Rightarrow> None | x # _ \<Rightarrow> Some x)"

definition match_at :: "regex \<Rightarrow> string \<Rightarrow> groups option" where
  \<comment> \<open>\<open>r.match(s)\<close>: the groups of the first way to match at the front of \<open>s\<close>\<close>
  "match_at r s = map_option fst (first_match r (Map.empty, s))"

fun search :: "regex \<Rightarrow> string \<Rightarrow> groups option" where
  \<comment> \<open>\<open>r.search(s)\<close>: the match at the leftmost position that has one, the end of
      \<open>s\<close> included\<close>
  "search r [] = match_at r []"
| "search r (c # cs) =
     (case match_at r (c # cs) of None \<Rightarrow> search r cs | Some g \<Rightarrow> Some g)"

definition CHAT_LINE_RE :: regex where
  \<comment> \<open>\<open>Chat \(from '([^']+)'(?:,.*?)\): '([^']+)': (.+)$\<close>\<close>
  "CHAT_LINE_RE =
     Cat (Lit (''Chat (from '' @ [apos]))
    (Cat (Group 1 (PlusGreedy (NotChr apos)))
    (Cat (Lit [apos])
    (Cat (NGroup (Cat (Lit '','') (StarLazy AnyButNL)))
    (Cat (Lit (''): '' @ [apos]))
    (Cat (Group 2 (PlusGreedy (NotChr apos)))
    (Cat (Lit ''': '')
    (Cat (Group 3 (PlusGreedy AnyButNL))
         EndAnchor)))))))"

section \<open>\<open>TailWorker.run\<close>: what one line read from the file does\<close>

record chat_event =
  platform_id :: string
  user :: string
  message :: string

definition chat_of_line :: "string \<Rightarrow> chat_event option" where
  \<comment> \<open>lines 73 to 79: the arguments of \<open>new_chat.emit\<close>, if the line matches.  All
      three groups take part in every match of the pattern, so the last case, where
      \<open>m.group\<close> would give Python's \<open>None\<close>, does not arise.\<close>
  "chat_of_line line =
     (case search CHAT_LINE_RE line of
        None \<Rightarrow> None
      | Some g \<Rightarrow>
          (case (g 1, g 2, g 3) of
             (Some p, Some u, Some m) \<Rightarrow>
               Some \<lparr>platform_id = p, user = u,
                     message = strip_chars m {CHR '' '', apos, CHR 0x22}\<rparr>
           | _ \<Rightarrow> None))"

datatype signal =
    Log_line_detected string
  | Log_chat_parsed string string string
  | New_chat string string string

definition run_line :: "string \<Rightarrow> signal list" where
  \<comment> \<open>lines 67 to 79: the signals emitted for a non-empty result of \<open>readline\<close>\<close>
  "run_line raw =
     (let line = py_strip raw in
      if line = [] then []
      else Log_line_detected line #
        (case chat_of_line line of
           None \<Rightarrow> []
         | Some e \<Rightarrow> [Log_chat_parsed (platform_id e) (user e) (message e),
                      New_chat (platform_id e) (user e) (message e)]))"

section \<open>\<open>MainWindow\<close>\<close>

datatype py_exception =
    Exc string      \<comment> \<open>an instance of class \<open>Exception\<close>, with its \<open>str\<close>\<close>
  | BaseExc string  \<comment> \<open>an instance of \<open>BaseException\<close> outside \<open>Exception\<close>
                        (\<open>KeyboardInterrupt\<close>, \<open>SystemExit\<close>), with its class name\<close>

datatype 'a py_result = Returns 'a | Raises py_exception

datatype py_float_value = Finite real | Infinity | Neg_infinity | NaN
  \<comment> \<open>a Python \<open>float\<close>\<close>

datatype log_entry =
    Log_invalid_path      \<comment> \<open>Ruta de archivo invalida o no existe.\<close>
  | Log_watch_started     \<comment> \<open>Vigilancia iniciada.\<close>
  | Log_preparing string  \<comment> \<open>Preparando envio: content\<close>
  | Log_sent              \<comment> \<open>Mensaje enviado correctamente al webhook.\<close>
  | Log_send_error string \<comment> \<open>Error al enviar webhook: resp_text\<close>
  | Log_webhook_empty     \<comment> \<open>Webhook vacio - no se envio el mensaje.\<close>

record tail_worker =
  filepath :: string
  poll_interval :: py_float_value
  is_running :: bool

record main_window =
  file_edit :: string
  webhook_edit :: string
  template_edit :: string
  config_poll_interval :: string
  tail_worker :: "tail_worker option"
  start_btn :: string
  app_log :: "log_entry list"

record response =
  status_code :: int
  response_text :: string

record network =
  respond :: "string \<Rightarrow> string \<Rightarrow> response py_result"
  posted :: "(string \<times> string) list"

record os =
  path_exists :: "string \<Rightarrow> bool"
  py_float :: "string \<Rightarrow> py_float_value py_result"
    \<comment> \<open>\<open>float(s)\<close>: the number, or the \<open>ValueError\<close> that Python raises for a text
        that is no number, with Python's message\<close>

definition append_log :: "main_window \<Rightarrow> log_entry \<Rightarrow> main_window" where
  "append_log w e = w\<lparr>app_log := app_log w @ [e]\<rparr>"

definition DEFAULT_message_template :: string where
  \<comment> \<open>U+1F9DF, then \<open> {platform} \<close>, U+2014, then \<open> **{user}**: {message}\<close>\<close>
  "DEFAULT_message_template =
     [CHR 0xF0, CHR 0x9F, CHR 0xA7, CHR 0x9F] @ '' {platform} '' @
     [CHR 0xE2, CHR 0x80, CHR 0x94] @ '' **{user}**: {message}''"

definition platform_label :: "string \<Rightarrow> string" where
  \<comment> \<open>lines 212 to 218\<close>
  "platform_label pid =
     (if startswith pid ''Xbox_'' then ''Xbox''
      else if startswith pid ''PSN_'' then ''PSN''
      else if startswith pid ''Steam_'' then ''Steam''
      else pid)"

definition render :: "string \<Rightarrow> string \<Rightarrow> string \<Rightarrow> string \<Rightarrow> string" where
  \<comment> \<open>lines 221 to 225\<close>
  "render template label usr msg =
     py_replace (py_replace (py_replace template ''{platform}'' label) ''{user}'' usr)
       ''{message}'' msg"

definition requests_post ::
  "network \<Rightarrow> string \<Rightarrow> string \<Rightarrow> response py_result \<times> network" where
  \<comment> \<open>\<open>requests.post(url, json={"content": content}, timeout=8)\<close>: the request is
      recorded, and the network decides what comes back\<close>
  "requests_post net url content =
     (respond net url content, net\<lparr>posted := posted net @ [(url, content)]\<rparr>)"

definition post_webhook ::
  "network \<Rightarrow> string \<Rightarrow> string \<Rightarrow> (bool \<times> string) py_result \<times> network" where
  \<comment> \<open>lines 239 to 247; \<open>body\<close> is the result of the \<open>try\<close> block, and
      \<open>except Exception\<close> handles the instances of \<open>Exception\<close> only: any other
      exception leaves \<open>post_webhook\<close>\<close>
  "post_webhook net webhook_url content =
     (let (r, net') = requests_post net webhook_url content;
          body = (case r of
                    Raises x \<Rightarrow> Raises x
                  | Returns resp \<Rightarrow>
                      if status_code resp = 200 \<or> status_code resp = 204
                      then Returns (True, [])
                      else Returns (False,
                        ''HTTP '' @ str_int (status_code resp) @ '' - '' @ response_text resp))
      in (case body of
            Raises (Exc e) \<Rightarrow> Returns (False, e)
          | Raises (BaseExc b) \<Rightarrow> Raises (BaseExc b)
          | Returns v \<Rightarrow> Returns v,
          net'))"

definition on_new_chat ::
  "main_window \<Rightarrow> network \<Rightarrow> string \<Rightarrow> string \<Rightarrow> string \<Rightarrow>
     unit py_result \<times> main_window \<times> network" where
  \<comment> \<open>lines 211 to 237\<close>
  "on_new_chat w net pid usr msg =
     (let label = platform_label pid;
          template = (if template_edit w = [] then DEFAULT_message_template
                      else template_edit w);
          content = render template label usr msg;
          w1 = append_log w (Log_preparing content);
          webhook = py_strip (webhook_edit w1)
      in if webhook \<noteq> [] then
           (case post_webhook net webhook content of
              (Raises e, net') \<Rightarrow> (Raises e, w1, net')
            | (Returns (success, resp_text), net') \<Rightarrow>
                if success then (Returns (), append_log w1 Log_sent, net')
                else (Returns (), append_log w1 (Log_send_error resp_text), net'))
         else (Returns (), append_log w1 Log_webhook_empty, net))"

definition start_watching :: "os \<Rightarrow> main_window \<Rightarrow> unit py_result \<times> main_window" where
  \<comment> \<open>lines 191 to 202; an exception of \<open>float\<close> is not handled and leaves
      \<open>start_watching\<close> as it is\<close>
  "start_watching sys w =
     (let fp = file_edit w in
      if fp = [] \<or> \<not> path_exists sys fp then (Returns (), append_log w Log_invalid_path)
      else (case py_float sys (config_poll_interval w) of
              Raises x \<Rightarrow> (Raises x, w)
            | Returns poll \<Rightarrow>
                (Returns (),
                 append_log
                   (w\<lparr>tail_worker := Some \<lparr>filepath = fp, poll_interval = poll,
                                           is_running = True\<rparr>,
                      start_btn := ''Detener vigilancia''\<rparr>)
                   Log_watch_started)))"

definition watching :: "main_window \<Rightarrow> bool" where
  \<comment> \<open>the test of \<open>toggle_watch\<close>: \<open>self.tail_worker and self.tail_worker.isRunning()\<close>\<close>
  "watching w = (case tail_worker w of None \<Rightarrow> False | Some t \<Rightarrow> is_running t)"

section \<open>Notions of the specification\<close>

definition chat_shape :: "string \<Rightarrow> string \<Rightarrow> string \<Rightarrow> string \<Rightarrow> string" where
  \<comment> \<open>the text \<open>Chat (from 'p',q): 'u': m\<close>\<close>
  "chat_shape p q u m =
     ''Chat (from '' @ [apos] @ p @ [apos] @ '','' @ q @ ''): '' @ [apos] @ u @ ''': '' @ m"

function render_single_pass :: "string \<Rightarrow> string \<Rightarrow> string \<Rightarrow> string \<Rightarrow> string" where
  \<comment> \<open>the rendering that section 4.4 of the specification asks for: one pass over the
      original template, each token replaced by its value, the values not searched\<close>
  "render_single_pass [] label usr msg = []"
| "render_single_pass (c # cs) label usr msg =
     (if prefix ''{platform}'' (c # cs)
        then label @ render_single_pass (drop 10 (c # cs)) label usr msg
      else if prefix ''{user}'' (c # cs)
        then usr @ render_single_pass (drop 6 (c # cs)) label usr msg
      else if prefix ''{message}'' (c # cs)
        then msg @ render_single_pass (drop 9 (c # cs)) label usr msg
      else c # render_single_pass cs label usr msg)"
  by pat_completeness auto
termination
  by (relation "measure (\<lambda>(t, label, usr, msg). length t)") auto

fun braces_begin_tokens :: "string \<Rightarrow> bool" where
  \<comment> \<open>every \<open>{\<close> of the template is the first character of one of the three tokens\<close>
  "braces_begin_tokens [] = True"
| "braces_begin_tokens (c # cs) =
     ((c = CHR ''{'' \<longrightarrow>
         prefix ''{platform}'' (c # cs) \<or> prefix ''{user}'' (c # cs) \<or>
         prefix ''{message}'' (c # cs)) \<and>
      braces_begin_tokens cs)"

fun occurrences :: "string \<Rightarrow> string \<Rightarrow> nat" where
  \<comment> \<open>the number of positions of \<open>s\<close> at which \<open>tok\<close> begins\<close>
  "occurrences tok [] = 0"
| "occurrences tok (c # cs) = (if prefix tok (c # cs) then 1 else 0) + occurrences tok cs"

section \<open>Lemmas: whitespace\<close>

lemma whitespace_prefix_free:
  "\<forall>a\<in>set whitespace. \<forall>b\<in>set whitespace. prefix a b \<longrightarrow> a = b"
  by (simp add: whitespace_def)

lemma whitespace_nonempty: "w \<in> set whitespace \<Longrightarrow> w \<noteq> []"
  by (auto simp: whitespace_def)

lemma lstrip_fuel_blank:
  "set ws \<subseteq> set whitespace \<Longrightarrow> length (concat ws) \<le> n \<Longrightarrow>
   lstrip_fuel n whitespace (concat ws) = []"
proof (induction ws arbitrary: n)
  case Nil
  then show ?case by (cases n) (simp_all add: whitespace_def)
next
  case (Cons w ws)
  from Cons.prems have w: "w \<in> set whitespace" and ws: "set ws \<subseteq> set whitespace"
    by auto
  have ne: "w \<noteq> []" using w by (rule whitespace_nonempty)
  then have "1 \<le> length w" by (cases w) simp_all
  moreover from Cons.prems(2) have "length w + length (concat ws) \<le> n" by simp
  ultimately have "length (concat ws) < n" by linarith
  then obtain k where n: "n = Suc k" and k: "length (concat ws) \<le> k"
    by (cases n) auto
  let ?s = "concat (w # ws)"
  let ?P = "\<lambda>v. v \<noteq> [] \<and> prefix v ?s"
  have "?P w" using ne by simp
  with w have "find ?P whitespace \<noteq> None"
    by (auto simp: find_None_iff)
  then obtain v where v: "find ?P whitespace = Some v" by blast
  then have vin: "v \<in> set whitespace" and vp: "prefix v ?s"
    by (auto simp: find_Some_iff)
  have "prefix w ?s" by simp
  with vp have "prefix v w \<or> prefix w v"
    using prefix_same_cases by blast
  with w vin have "v = w" using whitespace_prefix_free by blast
  with v n k Cons.IH [OF ws k] show ?case by simp
qed

lemma py_strip_blank: "set ws \<subseteq> set whitespace \<Longrightarrow> py_strip (concat ws) = []"
  by (simp add: py_strip_def py_lstrip_def py_rstrip_def lstrip_fuel_blank)

section \<open>Lemmas: what a match says about the line\<close>

lemma in_spans:
  "s' \<in> set (spans a s) \<Longrightarrow> \<exists>w. s = w @ s' \<and> (\<forall>c\<in>set w. cmatch a c)"
proof (induction s)
  case Nil
  then show ?case by simp
next
  case (Cons c cs)
  show ?case
  proof (cases "s' = c # cs")
    case True
    then show ?thesis by simp
  next
    case False
    with Cons.prems have c: "cmatch a c" and "s' \<in> set (spans a cs)"
      by (auto split: if_splits)
    with Cons.IH obtain w where "cs = w @ s'" "\<forall>c\<in>set w. cmatch a c" by blast
    with c have "c # cs = (c # w) @ s' \<and> (\<forall>x\<in>set (c # w). cmatch a x)" by simp
    then show ?thesis by blast
  qed
qed

lemma in_tl_spans:
  assumes "s' \<in> set (tl (spans a s))"
  shows "\<exists>w. w \<noteq> [] \<and> s = w @ s' \<and> (\<forall>c\<in>set w. cmatch a c)"
proof (cases s)
  case Nil
  with assms show ?thesis by simp
next
  case (Cons c cs)
  with assms have c: "cmatch a c" and "s' \<in> set (spans a cs)"
    by (auto split: if_splits)
  then obtain w where "cs = w @ s'" "\<forall>c\<in>set w. cmatch a c"
    using in_spans by blast
  with c Cons have "c # w \<noteq> [] \<and> s = (c # w) @ s' \<and> (\<forall>x\<in>set (c # w). cmatch a x)"
    by simp
  then show ?thesis by blast
qed

lemma in_matches_Lit:
  "(g', s') \<in> set (matches (Lit l) (g, s)) \<Longrightarrow> g' = g \<and> s = l @ s'"
  by (auto simp: prefix_def split: if_splits)

lemma in_matches_Cat:
  "x \<in> set (matches (Cat r1 r2) st) \<Longrightarrow>
   \<exists>g s. (g, s) \<in> set (matches r1 st) \<and> x \<in> set (matches r2 (g, s))"
  by auto

lemma in_matches_NGroup:
  "x \<in> set (matches (NGroup r) st) \<Longrightarrow> x \<in> set (matches r st)"
  by simp

lemma in_matches_Plus:
  "(g', s') \<in> set (matches (PlusGreedy a) (g, s)) \<Longrightarrow>
   g' = g \<and> (\<exists>w. w \<noteq> [] \<and> s = w @ s' \<and> (\<forall>c\<in>set w. cmatch a c))"
  using in_tl_spans [of s' a s] by auto

lemma in_matches_Group_Plus:
  assumes "(g', s') \<in> set (matches (Group n (PlusGreedy a)) (g, s))"
  shows "\<exists>w. w \<noteq> [] \<and> s = w @ s' \<and> (\<forall>c\<in>set w. cmatch a c) \<and> g' = g(n \<mapsto> w)"
proof -
  from assms obtain g'' where m: "(g'', s') \<in> set (matches (PlusGreedy a) (g, s))"
    and g': "g' = g''(n \<mapsto> take (length s - length s') s)"
    by auto
  from in_matches_Plus [OF m] obtain w where "g'' = g" "w \<noteq> []" "s = w @ s'"
    "\<forall>c\<in>set w. cmatch a c" by blast
  with g' show ?thesis by auto
qed

lemma in_matches_Star:
  "(g', s') \<in> set (matches (StarLazy a) (g, s)) \<Longrightarrow>
   g' = g \<and> (\<exists>w. s = w @ s' \<and> (\<forall>c\<in>set w. cmatch a c))"
  using in_spans [of s' a s] by auto

lemma in_matches_EndAnchor:
  "(g', s') \<in> set (matches EndAnchor (g, s)) \<Longrightarrow>
   g' = g \<and> s' = s \<and> (s = [] \<or> s = [newline])"
  by (auto split: if_splits)

lemma in_matches_CHAT_LINE_RE:
  assumes "(g, s') \<in> set (matches CHAT_LINE_RE (g0, s))"
  shows "\<exists>p q u m. s = chat_shape p q u m @ s' \<and>
           p \<noteq> [] \<and> apos \<notin> set p \<and> newline \<notin> set q \<and> u \<noteq> [] \<and> apos \<notin> set u \<and>
           m \<noteq> [] \<and> newline \<notin> set m \<and> (s' = [] \<or> s' = [newline]) \<and>
           g 1 = Some p \<and> g 2 = Some u \<and> g 3 = Some m"
proof -
  from in_matches_Cat [OF assms [unfolded CHAT_LINE_RE_def]] obtain g1 s1
    where 1: "(g1, s1) \<in> set (matches (Lit (''Chat (from '' @ [apos])) (g0, s))"
    and r1: "(g, s') \<in> set (matches
      (Cat (Group 1 (PlusGreedy (NotChr apos)))
      (Cat (Lit [apos])
      (Cat (NGroup (Cat (Lit '','') (StarLazy AnyButNL)))
      (Cat (Lit (''): '' @ [apos]))
      (Cat (Group 2 (PlusGreedy (NotChr apos)))
      (Cat (Lit ''': '')
      (Cat (Group 3 (PlusGreedy AnyButNL))
           EndAnchor))))))) (g1, s1))"
    by blast
  from in_matches_Cat [OF r1] obtain g2 s2
    where 2: "(g2, s2) \<in> set (matches (Group 1 (PlusGreedy (NotChr apos))) (g1, s1))"
    and r2: "(g, s') \<in> set (matches
      (Cat (Lit [apos])
      (Cat (NGroup (Cat (Lit '','') (StarLazy AnyButNL)))
      (Cat (Lit (''): '' @ [apos]))
      (Cat (Group 2 (PlusGreedy (NotChr apos)))
      (Cat (Lit ''': '')
      (Cat (Group 3 (PlusGreedy AnyButNL))
           EndAnchor)))))) (g2, s2))"
    by blast
  from in_matches_Cat [OF r2] obtain g3 s3
    where 3: "(g3, s3) \<in> set (matches (Lit [apos]) (g2, s2))"
    and r3: "(g, s') \<in> set (matches
      (Cat (NGroup (Cat (Lit '','') (StarLazy AnyButNL)))
      (Cat (Lit (''): '' @ [apos]))
      (Cat (Group 2 (PlusGreedy (NotChr apos)))
      (Cat (Lit ''': '')
      (Cat (Group 3 (PlusGreedy AnyButNL))
           EndAnchor))))) (g3, s3))"
    by blast
  from in_matches_Cat [OF r3] obtain g5 s5
    where r4: "(g5, s5) \<in> set (matches (NGroup (Cat (Lit '','') (StarLazy AnyButNL))) (g3, s3))"
    and r5: "(g, s') \<in> set (matches
      (Cat (Lit (''): '' @ [apos]))
      (Cat (Group 2 (PlusGreedy (NotChr apos)))
      (Cat (Lit ''': '')
      (Cat (Group 3 (PlusGreedy AnyButNL))
           EndAnchor)))) (g5, s5))"
    by blast
  from in_matches_Cat [OF in_matches_NGroup [OF r4]] obtain g4 s4
    where 4: "(g4, s4) \<in> set (matches (Lit '','') (g3, s3))"
    and 5: "(g5, s5) \<in> set (matches (StarLazy AnyButNL) (g4, s4))"
    by blast
  from in_matches_Cat [OF r5] obtain g6 s6
    where 6: "(g6, s6) \<in> set (matches (Lit (''): '' @ [apos])) (g5, s5))"
    and r6: "(g, s') \<in> set (matches
      (Cat (Group 2 (PlusGreedy (NotChr apos)))
      (Cat (Lit ''': '')
      (Cat (Group 3 (PlusGreedy AnyButNL))
           EndAnchor))) (g6, s6))"
    by blast
  from in_matches_Cat [OF r6] obtain g7 s7
    where 7: "(g7, s7) \<in> set (matches (Group 2 (PlusGreedy (NotChr apos))) (g6, s6))"
    and r7: "(g, s') \<in> set (matches
      (Cat (Lit ''': '')
      (Cat (Group 3 (PlusGreedy AnyButNL))
           EndAnchor)) (g7, s7))"
    by blast
  from in_matches_Cat [OF r7] obtain g8 s8
    where 8: "(g8, s8) \<in> set (matches (Lit ''': '') (g7, s7))"
    and r8: "(g, s') \<in> set (matches
      (Cat (Group 3 (PlusGreedy AnyButNL)) EndAnchor) (g8, s8))"
    by blast
  from in_matches_Cat [OF r8] obtain g9 s9
    where 9: "(g9, s9) \<in> set (matches (Group 3 (PlusGreedy AnyButNL)) (g8, s8))"
    and 10: "(g, s') \<in> set (matches EndAnchor (g9, s9))"
    by blast
  from in_matches_Lit [OF 1] have e1: "g1 = g0" "s = (''Chat (from '' @ [apos]) @ s1" by auto
  from in_matches_Group_Plus [OF 2] obtain p where e2: "p \<noteq> []" "s1 = p @ s2"
    "apos \<notin> set p" "g2 = g1(1 \<mapsto> p)" by auto
  from in_matches_Lit [OF 3] have e3: "g3 = g2" "s2 = [apos] @ s3" by auto
  from in_matches_Lit [OF 4] have e4: "g4 = g3" "s3 = '','' @ s4" by auto
  from in_matches_Star [OF 5] obtain q where e5: "g5 = g4" "s4 = q @ s5" "newline \<notin> set q"
    by auto
  from in_matches_Lit [OF 6] have e6: "g6 = g5" "s5 = (''): '' @ [apos]) @ s6" by auto
  from in_matches_Group_Plus [OF 7] obtain u where e7: "u \<noteq> []" "s6 = u @ s7"
    "apos \<notin> set u" "g7 = g6(2 \<mapsto> u)" by auto
  from in_matches_Lit [OF 8] have e8: "g8 = g7" "s7 = ''': '' @ s8" by auto
  from in_matches_Group_Plus [OF 9] obtain m where e9: "m \<noteq> []" "s8 = m @ s9"
    "newline \<notin> set m" "g9 = g8(3 \<mapsto> m)" by auto
  from in_matches_EndAnchor [OF 10] have e10: "g = g9" "s' = s9" "s9 = [] \<or> s9 = [newline]"
    by auto
  have "s = chat_shape p q u m @ s'"
    unfolding chat_shape_def e1 e2 e3 e4 e5 e6 e7 e8 e9 e10 by simp
  moreover have "g 1 = Some p \<and> g 2 = Some u \<and> g 3 = Some m"
    unfolding e10 e9 e8 e7 e6 e5 e4 e3 e2 by simp
  ultimately show ?thesis
    using e2(1,3) e5(3) e7(1,3) e9(1,3) e10(2,3) by blast
qed

lemma match_at_Some:
  "match_at r s = Some g \<Longrightarrow> \<exists>s'. (g, s') \<in> set (matches r (Map.empty, s))"
  by (auto simp: match_at_def first_match_def split: list.splits)

lemma search_Some:
  "search r s = Some g \<Longrightarrow>
   \<exists>pre rest s'. s = pre @ rest \<and> (g, s') \<in> set (matches r (Map.empty, rest))"
proof (induction s)
  case Nil
  then show ?case using match_at_Some [of r "[]" g] by auto
next
  case (Cons c cs)
  show ?case
  proof (cases "match_at r (c # cs)")
    case None
    with Cons.prems have "search r cs = Some g" by simp
    with Cons.IH obtain pre rest s' where "cs = pre @ rest"
      "(g, s') \<in> set (matches r (Map.empty, rest))" by blast
    then have "c # cs = (c # pre) @ rest \<and> (g, s') \<in> set (matches r (Map.empty, rest))"
      by simp
    then show ?thesis by blast
  next
    case (Some g')
    with Cons.prems have "g' = g" by simp
    with Some obtain s' where "(g, s') \<in> set (matches r (Map.empty, c # cs))"
      using match_at_Some by blast
    then have "c # cs = [] @ (c # cs) \<and> (g, s') \<in> set (matches r (Map.empty, c # cs))"
      by simp
    then show ?thesis by blast
  qed
qed

lemma chat_of_line_Some:
  assumes "chat_of_line line = Some e"
  shows "\<exists>pre q m tail.
      line = pre @ chat_shape (platform_id e) q (user e) m @ tail \<and>
      message e = strip_chars m {CHR '' '', apos, CHR 0x22} \<and>
      platform_id e \<noteq> [] \<and> apos \<notin> set (platform_id e) \<and> newline \<notin> set q \<and>
      user e \<noteq> [] \<and> apos \<notin> set (user e) \<and>
      m \<noteq> [] \<and> newline \<notin> set m \<and> (tail = [] \<or> tail = [newline])"
proof -
  from assms obtain g where g: "search CHAT_LINE_RE line = Some g"
    by (auto simp: chat_of_line_def split: option.splits)
  from search_Some [OF g] obtain pre rest s' where line: "line = pre @ rest"
    and m: "(g, s') \<in> set (matches CHAT_LINE_RE (Map.empty, rest))" by blast
  from in_matches_CHAT_LINE_RE [OF m] obtain p q u m where
    *: "rest = chat_shape p q u m @ s'" "p \<noteq> []" "apos \<notin> set p" "newline \<notin> set q" "u \<noteq> []"
       "apos \<notin> set u" "m \<noteq> []" "newline \<notin> set m" "s' = [] \<or> s' = [newline]"
       "g 1 = Some p" "g 2 = Some u" "g 3 = Some m"
    by blast
  from assms g * have e: "e = \<lparr>platform_id = p, user = u,
    message = strip_chars m {CHR '' '', apos, CHR 0x22}\<rparr>"
    by (simp add: chat_of_line_def)
  show ?thesis
    using line * unfolding e by auto
qed

section \<open>Lemmas: the first match on a line of the chat shape\<close>

lemma first_match_Cat:
  "first_match r1 st = Some x \<Longrightarrow> first_match r2 x = Some y \<Longrightarrow>
   first_match (Cat r1 r2) st = Some y"
  by (auto simp: first_match_def split: list.splits)

lemma first_match_Lit_Cat:
  "first_match (Cat (Lit l) r) (g, l @ s) = first_match r (g, s)"
  by (simp add: first_match_def)

lemma first_match_NGroup_Cat:
  "first_match (Cat (NGroup (Cat (Lit l) r1)) r2) (g, l @ s) = first_match (Cat r1 r2) (g, s)"
  by (simp add: first_match_def)

lemma first_match_EndAnchor: "first_match EndAnchor (g, []) = Some (g, [])"
  by (simp add: first_match_def)

lemma spans_nonempty: "spans a s \<noteq> []"
  by (cases s) simp_all

lemma rev_tl_spans:
  assumes "w \<noteq> []" and "\<forall>c\<in>set w. cmatch a c" and "rest = [] \<or> \<not> cmatch a (hd rest)"
  shows "\<exists>t. rev (tl (spans a (w @ rest))) = rest # t"
  using assms(1,2)
proof (induction w)
  case Nil
  then show ?case by simp
next
  case (Cons c w)
  have stop: "spans a rest = [rest]"
    using assms(3) by (cases rest) auto
  show ?case
  proof (cases "w = []")
    case True
    with Cons.prems stop show ?thesis by simp
  next
    case False
    with Cons obtain t where t: "rev (tl (spans a (w @ rest))) = rest # t" by auto
    obtain x xs where x: "spans a (w @ rest) = x # xs"
      using spans_nonempty [of a "w @ rest"] by (cases "spans a (w @ rest)") auto
    with t have "rev xs = rest # t" by simp
    with x Cons.prems show ?thesis by simp
  qed
qed

lemma first_match_Group_Plus:
  assumes "w \<noteq> []" and "\<forall>c\<in>set w. cmatch a c" and "rest = [] \<or> \<not> cmatch a (hd rest)"
  shows "first_match (Group n (PlusGreedy a)) (g, w @ rest) = Some (g(n \<mapsto> w), rest)"
proof -
  from rev_tl_spans [OF assms] obtain t where "rev (tl (spans a (w @ rest))) = rest # t"
    by blast
  then show ?thesis by (simp add: first_match_def)
qed

lemma first_match_Star_skip:
  assumes "\<forall>c\<in>set q. cmatch a c \<and> c \<noteq> d"
  shows "first_match (Cat (StarLazy a) (Cat (Lit (d # l)) r)) (g, q @ s) =
         first_match (Cat (StarLazy a) (Cat (Lit (d # l)) r)) (g, s)"
  using assms by (induction q) (auto simp: first_match_def)

lemma first_match_Star_now:
  assumes "first_match r (g, s) = Some y"
  shows "first_match (Cat (StarLazy a) r) (g, s) = Some y"
proof -
  obtain xs where "spans a s = s # xs" by (cases s) auto
  with assms show ?thesis
    by (auto simp: first_match_def split: list.splits)
qed

lemma first_match_chat_shape:
  assumes p: "p \<noteq> []" "apos \<notin> set p"
    and q: "CHR '')'' \<notin> set q" "newline \<notin> set q"
    and u: "u \<noteq> []" "apos \<notin> set u"
    and m: "m \<noteq> []" "newline \<notin> set m"
  shows "first_match CHAT_LINE_RE (g, chat_shape p q u m) =
         Some (g(1 \<mapsto> p, 2 \<mapsto> u, 3 \<mapsto> m), [])"
proof -
  let ?K8 = "Cat (Group 3 (PlusGreedy AnyButNL)) EndAnchor"
  let ?K7 = "Cat (Lit ''': '') ?K8"
  let ?K6 = "Cat (Group 2 (PlusGreedy (NotChr apos))) ?K7"
  let ?K5 = "Cat (Lit (''): '' @ [apos])) ?K6"
  let ?K4 = "Cat (NGroup (Cat (Lit '','') (StarLazy AnyButNL))) ?K5"
  let ?K3 = "Cat (Lit [apos]) ?K4"
  let ?K2 = "Cat (Group 1 (PlusGreedy (NotChr apos))) ?K3"
  let ?g1 = "g(1 \<mapsto> p)"
  let ?g2 = "g(1 \<mapsto> p, 2 \<mapsto> u)"
  let ?g3 = "g(1 \<mapsto> p, 2 \<mapsto> u, 3 \<mapsto> m)"
  have "first_match (Group 3 (PlusGreedy AnyButNL)) (?g2, m @ []) = Some (?g3, [])"
    using m by (intro first_match_Group_Plus) auto
  then have 8: "first_match ?K8 (?g2, m) = Some (?g3, [])"
    using first_match_Cat [OF _ first_match_EndAnchor] by simp
  have 7: "first_match ?K7 (?g2, ''': '' @ m) = Some (?g3, [])"
    using 8 by (simp only: first_match_Lit_Cat)
  have "first_match (Group 2 (PlusGreedy (NotChr apos))) (?g1, u @ ''': '' @ m) =
        Some (?g2, ''': '' @ m)"
    using u by (intro first_match_Group_Plus) auto
  from first_match_Cat [OF this 7]
  have 6: "first_match ?K6 (?g1, u @ ''': '' @ m) = Some (?g3, [])" .
  have 5: "first_match ?K5 (?g1, (''): '' @ [apos]) @ u @ ''': '' @ m) = Some (?g3, [])"
    using 6 by (simp only: first_match_Lit_Cat)
  have "first_match (Cat (StarLazy AnyButNL) ?K5) (?g1, (''): '' @ [apos]) @ u @ ''': '' @ m) =
        Some (?g3, [])"
    using 5 by (rule first_match_Star_now)
  then have "first_match (Cat (StarLazy AnyButNL) ?K5)
      (?g1, q @ (''): '' @ [apos]) @ u @ ''': '' @ m) = Some (?g3, [])"
    using q first_match_Star_skip [of q AnyButNL "CHR '')''" "'': '' @ [apos]" ?K6 ?g1
      "(''): '' @ [apos]) @ u @ ''': '' @ m"]
    by auto
  then have 4: "first_match ?K4 (?g1, '','' @ q @ (''): '' @ [apos]) @ u @ ''': '' @ m) =
      Some (?g3, [])"
    by (simp only: first_match_NGroup_Cat)
  have 3: "first_match ?K3 (?g1, [apos] @ '','' @ q @ (''): '' @ [apos]) @ u @ ''': '' @ m) =
      Some (?g3, [])"
    using 4 by (simp only: first_match_Lit_Cat)
  have "first_match (Group 1 (PlusGreedy (NotChr apos)))
      (g, p @ [apos] @ '','' @ q @ (''): '' @ [apos]) @ u @ ''': '' @ m) =
      Some (?g1, [apos] @ '','' @ q @ (''): '' @ [apos]) @ u @ ''': '' @ m)"
    using p by (intro first_match_Group_Plus) auto
  from first_match_Cat [OF this 3]
  have 2: "first_match ?K2 (g, p @ [apos] @ '','' @ q @ (''): '' @ [apos]) @ u @ ''': '' @ m) =
      Some (?g3, [])" .
  have "first_match (Cat (Lit (''Chat (from '' @ [apos])) ?K2)
      (g, (''Chat (from '' @ [apos]) @ p @ [apos] @ '','' @ q @ (''): '' @ [apos]) @ u @ ''': '' @ m) =
      Some (?g3, [])"
    using 2 by (simp only: first_match_Lit_Cat)
  then show ?thesis
    by (simp add: CHAT_LINE_RE_def chat_shape_def)
qed

lemma match_at_CHAT_LINE_RE_None:
  "CHR ''C'' \<noteq> c \<Longrightarrow> match_at CHAT_LINE_RE (c # cs) = None"
  by (auto simp: match_at_def CHAT_LINE_RE_def first_match_def)

lemma search_skip:
  "CHR ''C'' \<notin> set pre \<Longrightarrow> search CHAT_LINE_RE (pre @ s) = search CHAT_LINE_RE s"
  by (induction pre) (simp_all add: match_at_CHAT_LINE_RE_None)

lemma chat_shape_Cons: "\<exists>cs. chat_shape p q u m = CHR ''C'' # cs"
  by (simp add: chat_shape_def)

lemma chat_of_line_chat_shape:
  assumes "CHR ''C'' \<notin> set pre"
    and "p \<noteq> []" "apos \<notin> set p"
    and "CHR '')'' \<notin> set q" "newline \<notin> set q"
    and "u \<noteq> []" "apos \<notin> set u"
    and "m \<noteq> []" "newline \<notin> set m"
  shows "chat_of_line (pre @ chat_shape p q u m) =
     Some \<lparr>platform_id = p, user = u, message = strip_chars m {CHR '' '', apos, CHR 0x22}\<rparr>"
proof -
  obtain cs where cs: "chat_shape p q u m = CHR ''C'' # cs"
    using chat_shape_Cons by blast
  have "match_at CHAT_LINE_RE (chat_shape p q u m) =
      Some (Map.empty(1 \<mapsto> p, 2 \<mapsto> u, 3 \<mapsto> m))"
    using first_match_chat_shape [OF assms(2-9)] by (simp add: match_at_def)
  then have "search CHAT_LINE_RE (chat_shape p q u m) =
      Some (Map.empty(1 \<mapsto> p, 2 \<mapsto> u, 3 \<mapsto> m))"
    unfolding cs by simp
  with search_skip [OF assms(1)] show ?thesis
    by (simp add: chat_of_line_def)
qed

lemma chat_of_line_needs_comma:
  assumes "\<not> sublist [apos, CHR '',''] line"
  shows "chat_of_line line = None"
proof (rule ccontr)
  assume "chat_of_line line \<noteq> None"
  then obtain e where "chat_of_line line = Some e" by auto
  from chat_of_line_Some [OF this] obtain pre q m tail where
    "line = pre @ chat_shape (platform_id e) q (user e) m @ tail" by blast
  then have "line = (pre @ ''Chat (from '' @ [apos] @ platform_id e) @ [apos, CHR '',''] @
      (q @ ''): '' @ [apos] @ user e @ ''': '' @ m @ tail)"
    by (simp add: chat_shape_def)
  then have "sublist [apos, CHR '',''] line"
    unfolding sublist_def by blast
  with assms show False by simp
qed

section \<open>Lemmas: replacing the tokens\<close>

lemma py_replace_pass:
  "old \<noteq> [] \<Longrightarrow> hd old \<notin> set pre \<Longrightarrow>
   py_replace (pre @ s) old new = pre @ py_replace s old new"
proof (induction pre)
  case Nil
  then show ?case by simp
next
  case (Cons c pre)
  then have "\<not> prefix old (c # pre @ s)"
    by (cases old) auto
  with Cons show ?case by simp
qed

lemma py_replace_hit:
  "old \<noteq> [] \<Longrightarrow> py_replace (old @ s) old new = new @ py_replace s old new"
  by (cases old) simp_all

lemma py_replace_absent:
  "old \<noteq> [] \<Longrightarrow> hd old \<notin> set s \<Longrightarrow> py_replace s old new = s"
  using py_replace_pass [of old s "[]" new] by simp

lemma render_Nil: "render [] p u m = []"
  by (simp add: render_def)

lemma render_platform:
  assumes "CHR ''{'' \<notin> set p"
  shows "render (''{platform}'' @ r) p u m = p @ render r p u m"
proof -
  have "py_replace (''{platform}'' @ r) ''{platform}'' p = p @ py_replace r ''{platform}'' p"
    by (rule py_replace_hit) simp
  moreover have "py_replace (p @ x) ''{user}'' u = p @ py_replace x ''{user}'' u" for x
    using assms by (intro py_replace_pass) simp_all
  moreover have "py_replace (p @ x) ''{message}'' m = p @ py_replace x ''{message}'' m" for x
    using assms by (intro py_replace_pass) simp_all
  ultimately show ?thesis
    by (simp only: render_def)
qed

lemma render_user:
  assumes "CHR ''{'' \<notin> set u"
  shows "render (''{user}'' @ r) p u m = u @ render r p u m"
proof -
  have "py_replace (''user}'' @ r) ''{platform}'' p = ''user}'' @ py_replace r ''{platform}'' p"
    by (intro py_replace_pass) simp_all
  then have "py_replace (''{user}'' @ r) ''{platform}'' p =
      ''{user}'' @ py_replace r ''{platform}'' p"
    by simp
  moreover have "py_replace (''{user}'' @ x) ''{user}'' u = u @ py_replace x ''{user}'' u" for x
    by (rule py_replace_hit) simp
  moreover have "py_replace (u @ x) ''{message}'' m = u @ py_replace x ''{message}'' m" for x
    using assms by (intro py_replace_pass) simp_all
  ultimately show ?thesis
    by (simp only: render_def)
qed

lemma render_message:
  "render (''{message}'' @ r) p u m = m @ render r p u m"
proof -
  have "py_replace (''message}'' @ r) ''{platform}'' p =
      ''message}'' @ py_replace r ''{platform}'' p"
    by (intro py_replace_pass) simp_all
  then have "py_replace (''{message}'' @ r) ''{platform}'' p =
      ''{message}'' @ py_replace r ''{platform}'' p"
    by simp
  moreover have "py_replace (''message}'' @ x) ''{user}'' u =
      ''message}'' @ py_replace x ''{user}'' u" for x
    by (intro py_replace_pass) simp_all
  then have "py_replace (''{message}'' @ x) ''{user}'' u =
      ''{message}'' @ py_replace x ''{user}'' u" for x
    by simp
  moreover have "py_replace (''{message}'' @ x) ''{message}'' m =
      m @ py_replace x ''{message}'' m" for x
    by (rule py_replace_hit) simp
  ultimately show ?thesis
    by (simp only: render_def)
qed

lemma render_other:
  "c \<noteq> CHR ''{'' \<Longrightarrow> render (c # cs) p u m = c # render cs p u m"
  by (simp add: render_def)

lemma braces_begin_tokens_append:
  "braces_begin_tokens (a @ b) \<Longrightarrow> braces_begin_tokens b"
  by (induction a) simp_all

lemma render_single_pass_other:
  "c \<noteq> CHR ''{'' \<Longrightarrow>
   render_single_pass (c # cs) p u m = c # render_single_pass cs p u m"
  by auto

lemma render_eq_single_pass:
  assumes "braces_begin_tokens t" and p: "CHR ''{'' \<notin> set p" and u: "CHR ''{'' \<notin> set u"
  shows "render t p u m = render_single_pass t p u m"
  using assms(1)
proof (induction t rule: length_induct)
  case (1 t)
  have IH: "render r p u m = render_single_pass r p u m" if "t = a @ r" "a \<noteq> []" for a r
  proof -
    from that have "length r < length t" by (cases a) simp_all
    moreover from "1.prems" that have "braces_begin_tokens r"
      using braces_begin_tokens_append by blast
    ultimately show ?thesis using "1.IH" by blast
  qed
  show ?case
  proof (cases t)
    case Nil
    then show ?thesis by (simp add: render_Nil)
  next
    case (Cons c cs)
    consider (platform) "prefix ''{platform}'' t"
      | (user) "prefix ''{user}'' t"
      | (message) "prefix ''{message}'' t"
      | (other) "\<not> prefix ''{platform}'' t" "\<not> prefix ''{user}'' t" "\<not> prefix ''{message}'' t"
      by blast
    then show ?thesis
    proof cases
      case platform
      then obtain r where t: "t = ''{platform}'' @ r" by (auto simp: prefix_def)
      have "render t p u m = p @ render r p u m"
        unfolding t using p by (rule render_platform)
      also have "\<dots> = p @ render_single_pass r p u m"
        using IH [OF t] by simp
      also have "\<dots> = render_single_pass t p u m"
        by (simp add: t)
      finally show ?thesis .
    next
      case user
      then obtain r where t: "t = ''{user}'' @ r" by (auto simp: prefix_def)
      have "render t p u m = u @ render r p u m"
        unfolding t using u by (rule render_user)
      also have "\<dots> = u @ render_single_pass r p u m"
        using IH [OF t] by simp
      also have "\<dots> = render_single_pass t p u m"
        by (simp add: t)
      finally show ?thesis .
    next
      case message
      then obtain r where t: "t = ''{message}'' @ r" by (auto simp: prefix_def)
      have "render t p u m = m @ render r p u m"
        unfolding t by (rule render_message)
      also have "\<dots> = m @ render_single_pass r p u m"
        using IH [OF t] by simp
      also have "\<dots> = render_single_pass t p u m"
        by (simp add: t)
      finally show ?thesis .
    next
      case other
      with "1.prems" Cons have c: "c \<noteq> CHR ''{''" by auto
      have "render t p u m = c # render cs p u m"
        using render_other [OF c] Cons by simp
      also have "\<dots> = c # render_single_pass cs p u m"
        using IH [of "[c]" cs] Cons by simp
      also have "\<dots> = render_single_pass t p u m"
        using render_single_pass_other [OF c] Cons by simp
      finally show ?thesis .
    qed
  qed
qed

lemma render_single_pass_no_brace:
  assumes "braces_begin_tokens t" and p: "CHR ''{'' \<notin> set p" and u: "CHR ''{'' \<notin> set u"
    and m: "CHR ''{'' \<notin> set m"
  shows "CHR ''{'' \<notin> set (render_single_pass t p u m)"
  using assms(1)
proof (induction t rule: length_induct)
  case (1 t)
  have IH: "CHR ''{'' \<notin> set (render_single_pass r p u m)" if "t = a @ r" "a \<noteq> []" for a r
  proof -
    from that have "length r < length t" by (cases a) simp_all
    moreover from "1.prems" that have "braces_begin_tokens r"
      using braces_begin_tokens_append by blast
    ultimately show ?thesis using "1.IH" by blast
  qed
  show ?case
  proof (cases t)
    case Nil
    then show ?thesis by simp
  next
    case (Cons c cs)
    consider (platform) "prefix ''{platform}'' t"
      | (user) "prefix ''{user}'' t"
      | (message) "prefix ''{message}'' t"
      | (other) "\<not> prefix ''{platform}'' t" "\<not> prefix ''{user}'' t" "\<not> prefix ''{message}'' t"
      by blast
    then show ?thesis
    proof cases
      case platform
      then obtain r where t: "t = ''{platform}'' @ r" by (auto simp: prefix_def)
      with IH [OF t] p show ?thesis by simp
    next
      case user
      then obtain r where t: "t = ''{user}'' @ r" by (auto simp: prefix_def)
      with IH [OF t] u show ?thesis by simp
    next
      case message
      then obtain r where t: "t = ''{message}'' @ r" by (auto simp: prefix_def)
      with IH [OF t] m show ?thesis by simp
    next
      case other
      with "1.prems" Cons have c: "c \<noteq> CHR ''{''" by auto
      with IH [of "[c]" cs] Cons show ?thesis
        by (simp only: render_single_pass_other) simp
    qed
  qed
qed

section \<open>The chat grammar (C1, C6, C10)\<close>

text \<open>
  C1 says that the qualifier after the platform identifier is optional, so that
  \<open>Chat (from 'P'): 'U': M\<close> yields the event \<open>(P, U, M)\<close>.  The group \<open>(?:,.*?)\<close> of
  \<open>CHAT_LINE_RE\<close> carries no \<open>?\<close>: a comma has to follow the closing apostrophe of the
  identifier.  The line below has none and yields no event.
\<close>

theorem chat_qualifier_counterexample:
  "chat_of_line ''Chat (from 'Steam_1'): 'Zed': hello'' = None"
  by (simp add: chat_of_line_def CHAT_LINE_RE_def match_at_def first_match_def)

text \<open>
  C1, amended: the qualifier is mandatory.  A line \<open>pre Chat (from 'p',q): 'u': m\<close>, where
  \<open>pre\<close> has no \<open>C\<close>, \<open>p\<close> and \<open>u\<close> are non-empty without apostrophe, the qualifier text
  \<open>q\<close> has neither \<open>)\<close> nor newline and \<open>m\<close> is non-empty without newline, yields the
  event with platform identifier \<open>p\<close>, user \<open>u\<close> and message \<open>m\<close> stripped at its edges.
  A line in which no apostrophe is directly followed by a comma yields no event.
\<close>

theorem chat_qualifier_mandatory:
  "(CHR ''C'' \<notin> set pre \<and> p \<noteq> [] \<and> apos \<notin> set p \<and> CHR '')'' \<notin> set q \<and> newline \<notin> set q \<and>
    u \<noteq> [] \<and> apos \<notin> set u \<and> m \<noteq> [] \<and> newline \<notin> set m
    \<longrightarrow> chat_of_line (pre @ chat_shape p q u m) =
          Some \<lparr>platform_id = p, user = u,
                message = strip_chars m {CHR '' '', apos, CHR 0x22}\<rparr>) \<and>
   (\<not> sublist [apos, CHR '',''] line \<longrightarrow> chat_of_line line = None)"
  using chat_of_line_chat_shape [of pre p q u m] chat_of_line_needs_comma [of line]
  by blast

theorem chat_qualifier_mandatory_witness:
  "chat_of_line ''2024-05-01T10:00:00 12.345 INF Chat (from 'Steam_1', entity id 171): 'Zed': hi there'' =
     Some \<lparr>platform_id = ''Steam_1'', user = ''Zed'', message = ''hi there''\<rparr> \<and>
   chat_of_line ''Chat (from 'Steam_1'): 'Zed': hello'' = None"
  using chat_qualifier_mandatory [of "''2024-05-01T10:00:00 12.345 INF ''" "''Steam_1''"
      "'' entity id 171''" "''Zed''" "''hi there''" "''Chat (from 'Steam_1'): 'Zed': hello''"]
  by (simp add: chat_shape_def strip_chars_def sublist_Cons_right)

text \<open>
  C6 (scenario A): the line \<open>Chat (from 'Steam_123', Entity): 'Zed': hello world\<close> yields
  exactly the event with platform identifier \<open>Steam_123\<close>, user \<open>Zed\<close> and message
  \<open>hello world\<close>; read with its newline by \<open>TailWorker.run\<close> it is logged, parsed and
  emitted as \<open>new_chat\<close>; and the identifier gets the label \<open>Steam\<close>.
\<close>

theorem scenario_A:
  "chat_of_line ''Chat (from 'Steam_123', Entity): 'Zed': hello world'' =
     Some \<lparr>platform_id = ''Steam_123'', user = ''Zed'', message = ''hello world''\<rparr> \<and>
   run_line (''Chat (from 'Steam_123', Entity): 'Zed': hello world'' @ [newline]) =
     [Log_line_detected ''Chat (from 'Steam_123', Entity): 'Zed': hello world'',
      Log_chat_parsed ''Steam_123'' ''Zed'' ''hello world'',
      New_chat ''Steam_123'' ''Zed'' ''hello world''] \<and>
   platform_label ''Steam_123'' = ''Steam''"
  by (simp add: run_line_def py_strip_def py_lstrip_def py_rstrip_def whitespace_def
      chat_of_line_def CHAT_LINE_RE_def match_at_def first_match_def strip_chars_def
      platform_label_def startswith_def)

text \<open>
  C10 says that, the user field being free of apostrophes, no chat line whose user name
  contains an apostrophe can yield an event.  The line below is the chat line of the user
  \<open>O'Brien\<close>; the lazy qualifier runs on to the later \<open>): '\<close> inside the message, and the
  line yields an event, with the user \<open>a\<close>.
\<close>

theorem chat_apostrophe_counterexample:
  "''Chat (from 'Steam_1', Entity): 'O'Brien': see (note): 'a': b'' =
     chat_shape ''Steam_1'' '' Entity'' ''O'Brien'' ''see (note): 'a': b'' \<and>
   apos \<in> set ''O'Brien'' \<and>
   chat_of_line ''Chat (from 'Steam_1', Entity): 'O'Brien': see (note): 'a': b'' =
     Some \<lparr>platform_id = ''Steam_1'', user = ''a'', message = ''b''\<rparr>"
  by (simp add: chat_shape_def chat_of_line_def CHAT_LINE_RE_def match_at_def first_match_def
      strip_chars_def)

text \<open>
  C10, amended: every event that \<open>chat_of_line\<close> produces has a non-empty platform
  identifier and a non-empty user, both free of apostrophes, and its message is the
  edge-stripped form of a non-empty text; the line contains
  \<open>Chat (from 'platform_id',q): 'user': m\<close> and ends behind \<open>m\<close> (or one newline later).
  So no event ever carries a user name with an apostrophe: such a line yields no event, or
  an event whose user field is another, apostrophe-free, piece of the line.
\<close>

theorem chat_event_invariant:
  assumes "chat_of_line line = Some e"
  shows "platform_id e \<noteq> [] \<and> apos \<notin> set (platform_id e) \<and>
         user e \<noteq> [] \<and> apos \<notin> set (user e) \<and>
         (\<exists>pre q m tail.
            line = pre @ chat_shape (platform_id e) q (user e) m @ tail \<and>
            m \<noteq> [] \<and> message e = strip_chars m {CHR '' '', apos, CHR 0x22} \<and>
            (tail = [] \<or> tail = [newline]))"
  using chat_of_line_Some [OF assms] by blast

theorem chat_event_invariant_witness:
  "chat_of_line ''Chat (from 'Steam_1', Entity): 'O'Brien': see (note): 'a': b'' =
     Some \<lparr>platform_id = ''Steam_1'', user = ''a'', message = ''b''\<rparr> \<and>
   apos \<notin> set (user \<lparr>platform_id = ''Steam_1'', user = ''a'', message = ''b''\<rparr>) \<and>
   user \<lparr>platform_id = ''Steam_1'', user = ''a'', message = ''b''\<rparr> \<noteq> ''O'Brien''"
proof -
  have h: "chat_of_line ''Chat (from 'Steam_1', Entity): 'O'Brien': see (note): 'a': b'' =
     Some \<lparr>platform_id = ''Steam_1'', user = ''a'', message = ''b''\<rparr>"
    by (simp add: chat_of_line_def CHAT_LINE_RE_def match_at_def first_match_def
        strip_chars_def)
  from chat_event_invariant [OF h]
  have "apos \<notin> set (user \<lparr>platform_id = ''Steam_1'', user = ''a'', message = ''b''\<rparr>)"
    by blast
  with h show ?thesis by auto
qed

section \<open>Platform labels (C5)\<close>

text \<open>
  C5: the label is a function of the identifier alone; the prefixes are tested in the order
  \<open>Xbox_\<close>, \<open>PSN_\<close>, \<open>Steam_\<close>, on the first characters and with their case, and an
  identifier with none of them is its own label, unchanged.
\<close>

theorem platform_label_rules:
  "(startswith pid ''Xbox_'' \<longrightarrow> platform_label pid = ''Xbox'') \<and>
   (\<not> startswith pid ''Xbox_'' \<and> startswith pid ''PSN_'' \<longrightarrow> platform_label pid = ''PSN'') \<and>
   (\<not> startswith pid ''Xbox_'' \<and> \<not> startswith pid ''PSN_'' \<and> startswith pid ''Steam_''
      \<longrightarrow> platform_label pid = ''Steam'') \<and>
   (\<not> startswith pid ''Xbox_'' \<and> \<not> startswith pid ''PSN_'' \<and> \<not> startswith pid ''Steam_''
      \<longrightarrow> platform_label pid = pid) \<and>
   platform_label (''Xbox_'' @ rest) = ''Xbox'' \<and>
   platform_label (''PSN_'' @ rest) = ''PSN'' \<and>
   platform_label (''Steam_'' @ rest) = ''Steam'' \<and>
   platform_label ''xbox_1'' = ''xbox_1'' \<and>
   platform_label ''STEAM_1'' = ''STEAM_1'' \<and>
   platform_label ''my_PSN_1'' = ''my_PSN_1''"
  by (simp add: platform_label_def startswith_def)

theorem platform_label_rules_witness:
  "platform_label ''Xbox_42'' = ''Xbox'' \<and> platform_label ''PSN_42'' = ''PSN'' \<and>
   platform_label ''Steam_42'' = ''Steam'' \<and> platform_label ''EOS_42'' = ''EOS_42''"
  using platform_label_rules [of "''Xbox_42''"] platform_label_rules [of "''PSN_42''"]
    platform_label_rules [of "''Steam_42''"] platform_label_rules [of "''EOS_42''"]
  by (simp add: startswith_def)

section \<open>Template rendering (C2, C8)\<close>

text \<open>
  C2 says that rendering is one pass over the original template, so that token text inside
  a substituted value is never replaced.  \<open>on_new_chat\<close> chains three \<open>str.replace\<close> calls,
  each on the result of the one before: with the template \<open>{platform} {message}\<close>, the
  label \<open>{message}\<close> and the message \<open>m\<close> it yields \<open>m m\<close>, where one pass yields
  \<open>{message} m\<close>.
\<close>

theorem render_single_pass_counterexample:
  "render ''{platform} {message}'' ''{message}'' ''Zed'' ''m'' = ''m m'' \<and>
   render_single_pass ''{platform} {message}'' ''{message}'' ''Zed'' ''m'' = ''{message} m''"
  by (simp add: render_def)

text \<open>
  C2, amended: rendering replaces \<open>{platform}\<close> in the template, then \<open>{user}\<close> in that
  result, then \<open>{message}\<close> in that result, so token text that an earlier value brings in
  is replaced by a later step.  It coincides with the single pass over the original
  template whenever every \<open>{\<close> of the template begins one of the three tokens and neither
  the label nor the user value contains a \<open>{\<close>; the message value, put in last, is never
  searched, whatever it contains.
\<close>

theorem render_chained:
  assumes "braces_begin_tokens t" and "CHR ''{'' \<notin> set label" and "CHR ''{'' \<notin> set usr"
  shows "render t label usr msg = render_single_pass t label usr msg"
  using assms by (rule render_eq_single_pass)

theorem render_chained_witness:
  "render ''{platform} - {user}: {message}'' ''Steam'' ''Zed'' ''say {user}'' =
     render_single_pass ''{platform} - {user}: {message}'' ''Steam'' ''Zed'' ''say {user}'' \<and>
   render_single_pass ''{platform} - {user}: {message}'' ''Steam'' ''Zed'' ''say {user}'' =
     ''Steam - Zed: say {user}''"
  using render_chained [of "''{platform} - {user}: {message}''" "''Steam''" "''Zed''"
      "''say {user}''"]
  by simp

text \<open>
  C8 says that, the values having no token-like text, a token that occurs exactly once in
  the template does not survive into the output.  In the template \<open>{us{user}r}\<close> the
  token \<open>{user}\<close> occurs once; the values \<open>Steam\<close>, \<open>e\<close> and \<open>hi\<close> have no brace at
  all; the output is \<open>{user}\<close>, made of the text around the token and the value put in.
\<close>

theorem render_token_survives_counterexample:
  "occurrences ''{user}'' ''{us{user}r}'' = 1 \<and>
   CHR ''{'' \<notin> set ''Steam'' \<and> CHR ''{'' \<notin> set ''e'' \<and> CHR ''{'' \<notin> set ''hi'' \<and>
   CHR ''}'' \<notin> set ''Steam'' \<and> CHR ''}'' \<notin> set ''e'' \<and> CHR ''}'' \<notin> set ''hi'' \<and>
   render ''{us{user}r}'' ''Steam'' ''e'' ''hi'' = ''{user}'' \<and>
   sublist ''{user}'' (render ''{us{user}r}'' ''Steam'' ''e'' ''hi'')"
  by (simp add: render_def)

text \<open>
  C8, amended: for a template in which every \<open>{\<close> begins one of the three tokens, and
  values without \<open>{\<close>, every token of the template is replaced, however often it occurs:
  the output has no \<open>{\<close>, hence none of the tokens, and rendering the output again with
  the same values gives the output back.
\<close>

theorem render_leaves_no_token:
  assumes "braces_begin_tokens t"
    and "CHR ''{'' \<notin> set label" and "CHR ''{'' \<notin> set usr" and "CHR ''{'' \<notin> set msg"
  shows "CHR ''{'' \<notin> set (render t label usr msg) \<and>
         \<not> sublist ''{platform}'' (render t label usr msg) \<and>
         \<not> sublist ''{user}'' (render t label usr msg) \<and>
         \<not> sublist ''{message}'' (render t label usr msg) \<and>
         render (render t label usr msg) label usr msg = render t label usr msg"
proof -
  let ?out = "render t label usr msg"
  have out: "CHR ''{'' \<notin> set ?out"
    using render_eq_single_pass [OF assms(1-3)] render_single_pass_no_brace [OF assms]
    by simp
  have "\<not> sublist tok ?out" if "CHR ''{'' \<in> set tok" for tok
    using out that set_mono_sublist [of tok ?out] by blast
  moreover have "render ?out label usr msg = ?out"
    using out by (simp add: render_def [of ?out] py_replace_absent)
  ultimately show ?thesis using out by simp
qed

theorem render_leaves_no_token_witness:
  "render ''{user}: {message} ({user})'' ''Steam'' ''Zed'' ''hello'' = ''Zed: hello (Zed)'' \<and>
   \<not> sublist ''{user}'' (render ''{user}: {message} ({user})'' ''Steam'' ''Zed'' ''hello'') \<and>
   render (render ''{user}: {message} ({user})'' ''Steam'' ''Zed'' ''hello'')
     ''Steam'' ''Zed'' ''hello'' = ''Zed: hello (Zed)''"
proof -
  have r: "render ''{user}: {message} ({user})'' ''Steam'' ''Zed'' ''hello'' =
      ''Zed: hello (Zed)''"
    by (simp add: render_def)
  from render_leaves_no_token [of "''{user}: {message} ({user})''" "''Steam''" "''Zed''"
      "''hello''"]
  have "\<not> sublist ''{user}'' (render ''{user}: {message} ({user})'' ''Steam'' ''Zed'' ''hello'') \<and>
      render (render ''{user}: {message} ({user})'' ''Steam'' ''Zed'' ''hello'')
        ''Steam'' ''Zed'' ''hello'' =
      render ''{user}: {message} ({user})'' ''Steam'' ''Zed'' ''hello''"
    by simp
  with r show ?thesis by simp
qed

section \<open>Delivery (C3, C4, C9)\<close>

text \<open>
  C3: a response with status 200 or 204 makes \<open>post_webhook\<close> return success; a response
  with any other status makes it return failure with the reason \<open>HTTP status - body\<close>,
  which contains the status code and the response body; an exception of class \<open>Exception\<close> out of the
  HTTP call, as every transport error is, makes it return failure with the text of the
  exception as the reason.
\<close>

theorem post_webhook_outcome:
  "(respond net url content = Returns resp \<and>
      (status_code resp = 200 \<or> status_code resp = 204)
      \<longrightarrow> fst (post_webhook net url content) = Returns (True, [])) \<and>
   (respond net url content = Returns resp \<and>
      status_code resp \<noteq> 200 \<and> status_code resp \<noteq> 204
      \<longrightarrow> (\<exists>reason. fst (post_webhook net url content) = Returns (False, reason) \<and>
            reason = ''HTTP '' @ str_int (status_code resp) @ '' - '' @ response_text resp \<and>
            sublist (str_int (status_code resp)) reason \<and>
            sublist (response_text resp) reason)) \<and>
   (respond net url content = Raises (Exc e)
      \<longrightarrow> fst (post_webhook net url content) = Returns (False, e))"
proof -
  have "sublist (str_int c) (''HTTP '' @ str_int c @ '' - '' @ t)" for c t
    unfolding sublist_def by blast
  moreover have "sublist t (''HTTP '' @ str_int c @ '' - '' @ t)" for c t
    unfolding sublist_def by (metis append.assoc append_Nil2)
  ultimately show ?thesis
    by (simp add: post_webhook_def requests_post_def)
qed

theorem post_webhook_outcome_witness:
  "fst (post_webhook \<lparr>respond = (\<lambda>u c. Returns \<lparr>status_code = 204, response_text = []\<rparr>),
                      posted = []\<rparr> ''http://h/w'' ''hi'') = Returns (True, []) \<and>
   fst (post_webhook \<lparr>respond = (\<lambda>u c. Returns \<lparr>status_code = 404,
                        response_text = ''Not Found''\<rparr>),
                      posted = []\<rparr> ''http://h/w'' ''hi'') =
     Returns (False, ''HTTP 404 - Not Found'') \<and>
   fst (post_webhook \<lparr>respond = (\<lambda>u c. Raises (Exc ''timed out'')), posted = []\<rparr>
          ''http://h/w'' ''hi'') = Returns (False, ''timed out'')"
  using
    post_webhook_outcome [of "\<lparr>respond = (\<lambda>u c. Returns \<lparr>status_code = 204,
      response_text = []\<rparr>), posted = []\<rparr>" "''http://h/w''" "''hi''"
      "\<lparr>status_code = 204, response_text = []\<rparr>"]
    post_webhook_outcome [of "\<lparr>respond = (\<lambda>u c. Returns \<lparr>status_code = 404,
      response_text = ''Not Found''\<rparr>), posted = []\<rparr>" "''http://h/w''" "''hi''"
      "\<lparr>status_code = 404, response_text = ''Not Found''\<rparr>"]
    post_webhook_outcome [of "\<lparr>respond = (\<lambda>u c. Raises (Exc ''timed out'')), posted = []\<rparr>"
      "''http://h/w''" "''hi''" _ "''timed out''"]
  by (simp add: str_int_def digits.simps post_webhook_def requests_post_def)

text \<open>
  C4: when the webhook field holds only whitespace (or nothing), \<open>on_new_chat\<close> logs the
  prepared content and then that the webhook is empty, returns, and leaves the network as
  it was: \<open>post_webhook\<close> is not called and no request is recorded.
\<close>

theorem blank_webhook_skipped:
  assumes "set ws \<subseteq> set whitespace" and "webhook_edit w = concat ws"
  shows "on_new_chat w net pid usr msg =
      (Returns (),
       w\<lparr>app_log := app_log w @
          [Log_preparing
             (render (if template_edit w = [] then DEFAULT_message_template
                      else template_edit w) (platform_label pid) usr msg),
           Log_webhook_empty]\<rparr>,
       net) \<and>
    posted (snd (snd (on_new_chat w net pid usr msg))) = posted net"
  using py_strip_blank [OF assms(1)] assms(2)
  by (simp add: on_new_chat_def append_log_def Let_def)

theorem blank_webhook_skipped_witness:
  "on_new_chat
     \<lparr>file_edit = ''server_log.txt'', webhook_edit = [CHR 0x20, CHR 0x09],
      template_edit = ''{platform} - {user}: {message}'', config_poll_interval = ''1'',
      tail_worker = None, start_btn = ''Detener vigilancia'', app_log = []\<rparr>
     \<lparr>respond = (\<lambda>u c. Returns \<lparr>status_code = 204, response_text = []\<rparr>), posted = []\<rparr>
     ''Steam_123'' ''Zed'' ''hello world'' =
   (Returns (),
    \<lparr>file_edit = ''server_log.txt'', webhook_edit = [CHR 0x20, CHR 0x09],
      template_edit = ''{platform} - {user}: {message}'', config_poll_interval = ''1'',
      tail_worker = None, start_btn = ''Detener vigilancia'',
      app_log = [Log_preparing ''Steam - Zed: hello world'', Log_webhook_empty]\<rparr>,
    \<lparr>respond = (\<lambda>u c. Returns \<lparr>status_code = 204, response_text = []\<rparr>), posted = []\<rparr>)"
  using blank_webhook_skipped [of "[[CHR 0x20], [CHR 0x09]]"
      "\<lparr>file_edit = ''server_log.txt'', webhook_edit = [CHR 0x20, CHR 0x09],
        template_edit = ''{platform} - {user}: {message}'', config_poll_interval = ''1'',
        tail_worker = None, start_btn = ''Detener vigilancia'', app_log = []\<rparr>"
      "\<lparr>respond = (\<lambda>u c. Returns \<lparr>status_code = 204, response_text = []\<rparr>), posted = []\<rparr>"
      "''Steam_123''" "''Zed''" "''hello world''"]
  by (simp add: whitespace_def render_def platform_label_def startswith_def)

text \<open>
  C9 says that \<open>post_webhook\<close> never propagates an exception.  Its handler is
  \<open>except Exception\<close>: an exception outside that class, such as the
  \<open>KeyboardInterrupt\<close> that an interrupt raises while \<open>requests.post\<close> waits, is not
  handled, leaves \<open>post_webhook\<close> and then \<open>on_new_chat\<close>, after the request was made
  and the content was logged.
\<close>

theorem post_webhook_propagates_counterexample:
  "post_webhook \<lparr>respond = (\<lambda>u c. Raises (BaseExc ''KeyboardInterrupt'')), posted = []\<rparr>
     ''http://h/w'' ''hi'' =
     (Raises (BaseExc ''KeyboardInterrupt''),
      \<lparr>respond = (\<lambda>u c. Raises (BaseExc ''KeyboardInterrupt'')),
        posted = [(''http://h/w'', ''hi'')]\<rparr>) \<and>
   on_new_chat
     \<lparr>file_edit = ''server_log.txt'', webhook_edit = ''http://h/w'',
      template_edit = ''{user}: {message}'', config_poll_interval = ''1'',
      tail_worker = None, start_btn = ''Detener vigilancia'', app_log = []\<rparr>
     \<lparr>respond = (\<lambda>u c. Raises (BaseExc ''KeyboardInterrupt'')), posted = []\<rparr>
     ''Steam_1'' ''Zed'' ''hi'' =
     (Raises (BaseExc ''KeyboardInterrupt''),
      \<lparr>file_edit = ''server_log.txt'', webhook_edit = ''http://h/w'',
        template_edit = ''{user}: {message}'', config_poll_interval = ''1'',
        tail_worker = None, start_btn = ''Detener vigilancia'',
        app_log = [Log_preparing ''Zed: hi'']\<rparr>,
      \<lparr>respond = (\<lambda>u c. Raises (BaseExc ''KeyboardInterrupt'')),
        posted = [(''http://h/w'', ''Zed: hi'')]\<rparr>)"
  by (simp add: post_webhook_def requests_post_def on_new_chat_def append_log_def Let_def
      render_def platform_label_def startswith_def py_strip_def py_lstrip_def py_rstrip_def
      whitespace_def)

text \<open>
  C9, amended: \<open>post_webhook\<close> never propagates an exception of class \<open>Exception\<close>.
  When the HTTP call responds, or raises an instance of \<open>Exception\<close> (a timeout is one),
  \<open>post_webhook\<close> returns a pair: success with an empty reason, or failure with a reason,
  which for the exception is its text; and on a network that raises nothing outside
  \<open>Exception\<close>, \<open>on_new_chat\<close> returns normally, so that a failed delivery does not
  stop the pipeline.  An exception outside \<open>Exception\<close> is propagated by
  \<open>post_webhook\<close> as it is.
\<close>

theorem post_webhook_catches_Exception:
  "((\<forall>b. respond net url content \<noteq> Raises (BaseExc b)) \<longrightarrow>
      (\<exists>success reason net'.
         post_webhook net url content = (Returns (success, reason), net') \<and>
         (success \<longrightarrow> reason = []) \<and>
         (\<forall>e. respond net url content = Raises (Exc e) \<longrightarrow> \<not> success \<and> reason = e))) \<and>
   (respond net url content = Raises (BaseExc b) \<longrightarrow>
      fst (post_webhook net url content) = Raises (BaseExc b)) \<and>
   ((\<forall>u c b. respond net u c \<noteq> Raises (BaseExc b)) \<longrightarrow>
      fst (on_new_chat w net pid usr msg) = Returns ())"
proof (intro conjI impI)
  assume h: "\<forall>b. respond net url content \<noteq> Raises (BaseExc b)"
  show "\<exists>success reason net'.
         post_webhook net url content = (Returns (success, reason), net') \<and>
         (success \<longrightarrow> reason = []) \<and>
         (\<forall>e. respond net url content = Raises (Exc e) \<longrightarrow> \<not> success \<and> reason = e)"
  proof (cases "respond net url content")
    case (Returns resp)
    then show ?thesis by (auto simp: post_webhook_def requests_post_def)
  next
    case (Raises x)
    with h obtain e where "x = Exc e" by (cases x) auto
    with Raises show ?thesis by (auto simp: post_webhook_def requests_post_def)
  qed
next
  assume "respond net url content = Raises (BaseExc b)"
  then show "fst (post_webhook net url content) = Raises (BaseExc b)"
    by (simp add: post_webhook_def requests_post_def)
next
  assume h: "\<forall>u c b. respond net u c \<noteq> Raises (BaseExc b)"
  have "\<exists>v net'. post_webhook net u c = (Returns v, net')" for u c
  proof (cases "respond net u c")
    case (Returns resp)
    then show ?thesis by (auto simp: post_webhook_def requests_post_def)
  next
    case (Raises x)
    with h obtain e where "x = Exc e" by (cases x) auto
    with Raises show ?thesis by (auto simp: post_webhook_def requests_post_def)
  qed
  then obtain v net' where
    "post_webhook net (py_strip (webhook_edit w))
       (render (if template_edit w = [] then DEFAULT_message_template else template_edit w)
          (platform_label pid) usr msg) = (Returns v, net')"
    by blast
  then show "fst (on_new_chat w net pid usr msg) = Returns ()"
    by (cases v) (simp add: on_new_chat_def Let_def append_log_def)
qed

theorem post_webhook_catches_Exception_witness:
  "post_webhook \<lparr>respond = (\<lambda>u c. Raises (Exc ''timed out'')), posted = []\<rparr>
     ''http://h/w'' ''hi'' =
     (Returns (False, ''timed out''),
      \<lparr>respond = (\<lambda>u c. Raises (Exc ''timed out'')), posted = [(''http://h/w'', ''hi'')]\<rparr>) \<and>
   fst (post_webhook \<lparr>respond = (\<lambda>u c. Raises (BaseExc ''SystemExit'')), posted = []\<rparr>
     ''http://h/w'' ''hi'') = Raises (BaseExc ''SystemExit'') \<and>
   fst (on_new_chat
     \<lparr>file_edit = ''server_log.txt'', webhook_edit = ''http://h/w'',
      template_edit = ''{user}: {message}'', config_poll_interval = ''1'',
      tail_worker = None, start_btn = ''Detener vigilancia'', app_log = []\<rparr>
     \<lparr>respond = (\<lambda>u c. Raises (Exc ''timed out'')), posted = []\<rparr>
     ''Steam_1'' ''Zed'' ''hi'') = Returns ()"
  using
    post_webhook_catches_Exception [of
      "\<lparr>respond = (\<lambda>u c. Raises (Exc ''timed out'')), posted = []\<rparr>"
      "''http://h/w''" "''hi''" _
      "\<lparr>file_edit = ''server_log.txt'', webhook_edit = ''http://h/w'',
        template_edit = ''{user}: {message}'', config_poll_interval = ''1'',
        tail_worker = None, start_btn = ''Detener vigilancia'', app_log = []\<rparr>"
      "''Steam_1''" "''Zed''" "''hi''"]
    post_webhook_catches_Exception [of
      "\<lparr>respond = (\<lambda>u c. Raises (BaseExc ''SystemExit'')), posted = []\<rparr>"
      "''http://h/w''" "''hi''" "''SystemExit''"]
  by (simp add: post_webhook_def requests_post_def)

section \<open>Starting the watch (C7)\<close>

text \<open>
  C7: when the file field is empty or names a path that does not exist, \<open>start_watching\<close>
  appends the one log entry for the invalid path and returns: no worker is created, the
  window is watching exactly if it was before, and the button keeps its text.
\<close>

theorem start_rejected:
  assumes "file_edit w = [] \<or> \<not> path_exists sys (file_edit w)"
  shows "start_watching sys w = (Returns (), w\<lparr>app_log := app_log w @ [Log_invalid_path]\<rparr>) \<and>
         tail_worker (snd (start_watching sys w)) = tail_worker w \<and>
         watching (snd (start_watching sys w)) = watching w \<and>
         start_btn (snd (start_watching sys w)) = start_btn w"
  using assms by (auto simp: start_watching_def append_log_def watching_def)

theorem start_rejected_witness:
  "start_watching \<lparr>path_exists = (\<lambda>p. False), py_float = (\<lambda>s. Returns (Finite 1))\<rparr>
     \<lparr>file_edit = ''C:/missing/server_log.txt'', webhook_edit = [],
      template_edit = [], config_poll_interval = ''1'',
      tail_worker = None, start_btn = ''Iniciar vigilancia'', app_log = []\<rparr> =
   (Returns (),
    \<lparr>file_edit = ''C:/missing/server_log.txt'', webhook_edit = [],
      template_edit = [], config_poll_interval = ''1'',
      tail_worker = None, start_btn = ''Iniciar vigilancia'',
      app_log = [Log_invalid_path]\<rparr>) \<and>
   \<not> watching (snd (start_watching \<lparr>path_exists = (\<lambda>p. False), py_float = (\<lambda>s. Returns (Finite 1))\<rparr>
     \<lparr>file_edit = ''C:/missing/server_log.txt'', webhook_edit = [],
      template_edit = [], config_poll_interval = ''1'',
      tail_worker = None, start_btn = ''Iniciar vigilancia'', app_log = []\<rparr>))"
  using start_rejected [of
      "\<lparr>file_edit = ''C:/missing/server_log.txt'', webhook_edit = [],
        template_edit = [], config_poll_interval = ''1'',
        tail_worker = None, start_btn = ''Iniciar vigilancia'', app_log = []\<rparr>"
      "\<lparr>path_exists = (\<lambda>p. False), py_float = (\<lambda>s. Returns (Finite 1))\<rparr>"]
  by (simp add: watching_def)

end
